theory Spec2Isabelle
  imports Complex_Main "HOL-Library.Word" "HOL-Library.Log_Nat"
begin

unbundle bit_operations_syntax

section \<open>IEEE 754 binary floating point, round to nearest even\<close>

text \<open>
  \<^verbatim>\<open>lightctl.c\<close> computes brightness, colour scaling, blending and fade progress in C
  \<^verbatim>\<open>float\<close> (and, in \<^verbatim>\<open>get_timespan\<close>, one step in \<^verbatim>\<open>double\<close>). The model below is
  IEEE 754 arithmetic with every operation rounded to its own format (round to nearest,
  ties to even), as on the ARM VFP unit the program is built for: a value is a NaN, an
  infinity, the negative zero, or a rational number \<open>Val r\<close> (\<open>Val 0\<close> is the positive
  zero). Finite values are exact rationals, so each operation is the exact operation
  followed by \<open>rnd\<close>.
\<close>

datatype fp = NaN | PInf | NInf | NZero | Val rat

record format =
  prec :: nat
  emin :: int
  emax :: int

definition binary32 :: format where
  "binary32 = \<lparr>prec = 24, emin = - 126, emax = 127\<rparr>"

definition binary64 :: format where
  "binary64 = \<lparr>prec = 53, emin = - 1022, emax = 1023\<rparr>"

text \<open>\<open>ilog2 x\<close> is \<open>\<lfloor>log\<^sub>2 x\<rfloor>\<close> for a positive rational \<open>x\<close>.\<close>

definition ilog2 :: "rat \<Rightarrow> int" where
  "ilog2 x = (let (a, b) = quotient_of x; d = bitlen a - bitlen b
              in if 2 powi d \<le> x then d else d - 1)"

text \<open>Rounding a non-negative rational to the nearest integer, ties to the even one.\<close>

definition rne :: "rat \<Rightarrow> int" where
  "rne q = (let f = \<lfloor>q\<rfloor>; d = q - of_int f
            in if d < 1 / 2 then f
               else if 1 / 2 < d then f + 1
               else if even f then f else f + 1)"

text \<open>
  The unit in the last place of the binade of \<open>x > 0\<close> (the subnormal spacing below
  \<open>2 powi emin\<close>), and the rounded magnitude; \<open>None\<close> is overflow.
\<close>

definition ulp :: "format \<Rightarrow> rat \<Rightarrow> rat" where
  "ulp fmt x = 2 powi (max (ilog2 x) (emin fmt) - int (prec fmt) + 1)"

definition rnd_abs :: "format \<Rightarrow> rat \<Rightarrow> rat option" where
  "rnd_abs fmt x = (let y = of_int (rne (x / ulp fmt x)) * ulp fmt x
                    in if 2 powi (emax fmt + 1) \<le> y then None else Some y)"

definition rnd :: "format \<Rightarrow> rat \<Rightarrow> fp" where
  "rnd fmt x =
     (if x = 0 then Val 0
      else if 0 < x then (case rnd_abs fmt x of None \<Rightarrow> PInf | Some y \<Rightarrow> Val y)
      else (case rnd_abs fmt (- x) of None \<Rightarrow> NInf
            | Some y \<Rightarrow> if y = 0 then NZero else Val (- y)))"

text \<open>The sign bit, and the operations.\<close>

fun fneg_sign :: "fp \<Rightarrow> bool" where
  "fneg_sign NaN = False"
| "fneg_sign PInf = False"
| "fneg_sign NInf = True"
| "fneg_sign NZero = True"
| "fneg_sign (Val r) = (r < 0)"

fun is_zero :: "fp \<Rightarrow> bool" where
  "is_zero NZero = True"
| "is_zero (Val r) = (r = 0)"
| "is_zero _ = False"

fun is_inf :: "fp \<Rightarrow> bool" where
  "is_inf PInf = True"
| "is_inf NInf = True"
| "is_inf _ = False"

fun valof :: "fp \<Rightarrow> rat" where
  "valof (Val r) = r"
| "valof _ = 0"

definition signed_inf :: "bool \<Rightarrow> fp" where
  "signed_inf neg = (if neg then NInf else PInf)"

definition signed_zero :: "bool \<Rightarrow> fp" where
  "signed_zero neg = (if neg then NZero else Val 0)"

fun fneg :: "fp \<Rightarrow> fp" where
  "fneg NaN = NaN"
| "fneg PInf = NInf"
| "fneg NInf = PInf"
| "fneg NZero = Val 0"
| "fneg (Val r) = (if r = 0 then NZero else Val (- r))"

definition fadd :: "format \<Rightarrow> fp \<Rightarrow> fp \<Rightarrow> fp" where
  "fadd fmt a b =
     (if a = NaN \<or> b = NaN then NaN
      else if is_inf a then (if is_inf b \<and> a \<noteq> b then NaN else a)
      else if is_inf b then b
      else if valof a + valof b = 0 then signed_zero (a = NZero \<and> b = NZero)
      else rnd fmt (valof a + valof b))"

definition fsub :: "format \<Rightarrow> fp \<Rightarrow> fp \<Rightarrow> fp" where
  "fsub fmt a b = fadd fmt a (fneg b)"

definition fmul :: "format \<Rightarrow> fp \<Rightarrow> fp \<Rightarrow> fp" where
  "fmul fmt a b =
     (if a = NaN \<or> b = NaN then NaN
      else if is_inf a \<or> is_inf b then
        (if is_zero a \<or> is_zero b then NaN
         else signed_inf (fneg_sign a \<noteq> fneg_sign b))
      else if is_zero a \<or> is_zero b then signed_zero (fneg_sign a \<noteq> fneg_sign b)
      else rnd fmt (valof a * valof b))"

definition fdiv :: "format \<Rightarrow> fp \<Rightarrow> fp \<Rightarrow> fp" where
  "fdiv fmt a b =
     (if a = NaN \<or> b = NaN then NaN
      else if is_inf a then
        (if is_inf b then NaN else signed_inf (fneg_sign a \<noteq> fneg_sign b))
      else if is_inf b then signed_zero (fneg_sign a \<noteq> fneg_sign b)
      else if is_zero b then
        (if is_zero a then NaN else signed_inf (fneg_sign a \<noteq> fneg_sign b))
      else if is_zero a then signed_zero (fneg_sign a \<noteq> fneg_sign b)
      else rnd fmt (valof a / valof b))"

text \<open>Comparisons: false on a NaN, and the two zeros are equal.\<close>

fun flt :: "fp \<Rightarrow> fp \<Rightarrow> bool" where
  "flt NaN _ = False"
| "flt _ NaN = False"
| "flt PInf _ = False"
| "flt _ NInf = False"
| "flt _ PInf = True"
| "flt NInf _ = True"
| "flt a b = (valof a < valof b)"

fun feq :: "fp \<Rightarrow> fp \<Rightarrow> bool" where
  "feq NaN _ = False"
| "feq _ NaN = False"
| "feq PInf b = (b = PInf)"
| "feq NInf b = (b = NInf)"
| "feq a PInf = False"
| "feq a NInf = False"
| "feq a b = (valof a = valof b)"

definition fge :: "fp \<Rightarrow> fp \<Rightarrow> bool" where
  "fge a b = (flt b a \<or> feq a b)"


text \<open>
  Conversions. An integer converts to the nearest \<^verbatim>\<open>float\<close>; a \<^verbatim>\<open>double\<close> converts to
  \<^verbatim>\<open>float\<close> by rounding again; a \<^verbatim>\<open>float\<close> is a \<^verbatim>\<open>double\<close> as it is. The conversion
  \<^verbatim>\<open>(uint32_t) x\<close> discards the fraction; when the integral part is not a value of
  \<^verbatim>\<open>uint32_t\<close> (or \<open>x\<close> is a NaN or an infinity) the behaviour of the C program is
  undefined, which is \<open>None\<close>.
\<close>

type_synonym u32 = "32 word"

definition float_of_int :: "int \<Rightarrow> fp" where
  "float_of_int i = rnd binary32 (of_int i)"

definition float_of_u32 :: "u32 \<Rightarrow> fp" where
  "float_of_u32 w = float_of_int (uint w)"

fun float_of_double :: "fp \<Rightarrow> fp" where
  "float_of_double (Val r) = rnd binary32 r"
| "float_of_double x = x"

definition trunc_rat :: "rat \<Rightarrow> int" where
  "trunc_rat r = (if 0 \<le> r then \<lfloor>r\<rfloor> else \<lceil>r\<rceil>)"

fun u32_of_float :: "fp \<Rightarrow> u32 option" where
  "u32_of_float (Val r) =
     (if 0 \<le> trunc_rat r \<and> trunc_rat r < 2 ^ 32 then Some (word_of_int (trunc_rat r))
      else None)"
| "u32_of_float NZero = Some 0"
| "u32_of_float _ = None"

section \<open>Colour model and brightness limiter\<close>

definition w_brightness :: u32 where "w_brightness = 5"
definition r_brightness :: u32 where "r_brightness = 2"
definition g_brightness :: u32 where "g_brightness = 3"
definition b_brightness :: u32 where "b_brightness = 2"

definition get_brightness :: "u32 \<Rightarrow> fp" where
  "get_brightness color =
     fdiv binary32
       (float_of_u32 ((drop_bit 24 color AND 0xff) * w_brightness
                    + (drop_bit 16 color AND 0xff) * r_brightness
                    + (drop_bit 8 color AND 0xff) * g_brightness
                    + (drop_bit 0 color AND 0xff) * b_brightness))
       (float_of_u32 (w_brightness + r_brightness + g_brightness + b_brightness))"

text \<open>
  The return expression shared by \<^verbatim>\<open>limit_brightness\<close> and \<^verbatim>\<open>blend_colors\<close>:
  \<^verbatim>\<open>((uint32_t)(new_w) << 24) + ((uint32_t)(new_r) << 16) + ((uint32_t)(new_g) << 8)
  + ((uint32_t)(new_b) << 0)\<close>.
\<close>

definition pack_color :: "fp \<Rightarrow> fp \<Rightarrow> fp \<Rightarrow> fp \<Rightarrow> u32 option" where
  "pack_color new_w new_r new_g new_b =
     Option.bind (u32_of_float new_w) (\<lambda>w.
     Option.bind (u32_of_float new_r) (\<lambda>r.
     Option.bind (u32_of_float new_g) (\<lambda>g.
     Option.bind (u32_of_float new_b) (\<lambda>b.
       Some (push_bit 24 w + push_bit 16 r + push_bit 8 g + push_bit 0 b)))))"

definition limit_brightness :: "u32 \<Rightarrow> u32 \<Rightarrow> u32 option" where
  "limit_brightness color reference_color =
     (let brightness = get_brightness color;
          ref_brightness = get_brightness reference_color
      in if flt ref_brightness brightness then
           pack_color
             (fdiv binary32 (fmul binary32 (float_of_u32 (drop_bit 24 color AND 0xff)) ref_brightness) brightness)
             (fdiv binary32 (fmul binary32 (float_of_u32 (drop_bit 16 color AND 0xff)) ref_brightness) brightness)
             (fdiv binary32 (fmul binary32 (float_of_u32 (drop_bit 8 color AND 0xff)) ref_brightness) brightness)
             (fdiv binary32 (fmul binary32 (float_of_u32 (drop_bit 0 color AND 0xff)) ref_brightness) brightness)
         else Some color)"

definition blend_channel :: "fp \<Rightarrow> u32 \<Rightarrow> u32 \<Rightarrow> fp" where
  "blend_channel alpha c1 c2 =
     fadd binary32 (fmul binary32 (fsub binary32 (float_of_int 1) alpha) (float_of_u32 c1))
                   (fmul binary32 alpha (float_of_u32 c2))"

definition blend_colors :: "u32 \<Rightarrow> u32 \<Rightarrow> fp \<Rightarrow> u32 option" where
  "blend_colors color1 color2 alpha =
     pack_color
       (blend_channel alpha (drop_bit 24 color1 AND 0xff) (drop_bit 24 color2 AND 0xff))
       (blend_channel alpha (drop_bit 16 color1 AND 0xff) (drop_bit 16 color2 AND 0xff))
       (blend_channel alpha (drop_bit 8 color1 AND 0xff) (drop_bit 8 color2 AND 0xff))
       (blend_channel alpha (drop_bit 0 color1 AND 0xff) (drop_bit 0 color2 AND 0xff))"

text \<open>
  For stating properties: the channel \<^verbatim>\<open>(color >> s) & 0xff\<close> of a colour as a number, and
  the numerator that \<^verbatim>\<open>get_brightness\<close> forms from the four channels.
\<close>

definition chan :: "nat \<Rightarrow> u32 \<Rightarrow> int" where
  "chan s color = uint (drop_bit s color AND 0xff)"

definition weighted_sum :: "u32 \<Rightarrow> int" where
  "weighted_sum color =
     chan 24 color * 5 + chan 16 color * 2 + chan 8 color * 3 + chan 0 color * 2"

text \<open>
  The exact ratio of the brightness of \<open>R\<close> to that of \<open>C\<close>: both are a weighted sum
  over 12, and the 12 cancels.
\<close>

definition brightness_ratio :: "u32 \<Rightarrow> u32 \<Rightarrow> rat" where
  "brightness_ratio R C = of_int (weighted_sum R) / of_int (weighted_sum C)"


section \<open>State store\<close>

text \<open>
  A state file is a sequence of bytes; \<^verbatim>\<open>fwrite\<close> and \<^verbatim>\<open>fread\<close> move whole
  \<^verbatim>\<open>uint32_t\<close> items in the byte order of the machine (little endian on the target).
  The file system maps a path to the bytes stored there; a path that \<^verbatim>\<open>fopen\<close> cannot
  open maps to \<open>None\<close>. Diagnostics written to \<^verbatim>\<open>stderr\<close> and \<^verbatim>\<open>stdout\<close> are values of
  \<open>msg\<close>. \<^verbatim>\<open>fclose\<close> is taken to succeed: its failure only selects one more diagnostic.
\<close>

type_synonym byte = "8 word"
type_synonym fs = "string \<Rightarrow> byte list option"

datatype msg =
    Usage_text string
  | Expected_argument_after_time
  | Expected_float_after_time
  | Unknown_argument_not_hex string
  | Unknown_argument_one_color string
  | Could_not_impersonate_root string
  | Clock_failed
  | Init_failed int
  | Render_failed int
  | Failed_to_load string
  | Insufficient_data string
  | Failed_to_save string
  | Could_not_write_all string

definition bytes_of_u32 :: "u32 \<Rightarrow> byte list" where
  "bytes_of_u32 w = [ucast w, ucast (drop_bit 8 w), ucast (drop_bit 16 w), ucast (drop_bit 24 w)]"

fun u32s_of_bytes :: "byte list \<Rightarrow> u32 list" where
  "u32s_of_bytes (b0 # b1 # b2 # b3 # bs) =
     (ucast b0 + push_bit 8 (ucast b1) + push_bit 16 (ucast b2) + push_bit 24 (ucast b3))
     # u32s_of_bytes bs"
| "u32s_of_bytes _ = []"

text \<open>
  \<^verbatim>\<open>fread(colors, sizeof(uint32_t), led_count, file)\<close>: the complete items available, at
  most \<open>led_count\<close> of them, are stored at the front of \<open>colors\<close>; the result is their number.
\<close>

definition fread :: "byte list \<Rightarrow> u32 list \<Rightarrow> nat \<Rightarrow> nat \<times> u32 list" where
  "fread content colors led_count =
     (let items = take led_count (u32s_of_bytes content)
      in (length items, items @ drop (length items) colors))"

text \<open>The loop \<^verbatim>\<open>for (; n_read < led_count; ++n_read) colors[n_read] = 0;\<close>\<close>

function fill_undefined :: "nat \<Rightarrow> nat \<Rightarrow> u32 list \<Rightarrow> u32 list" where
  "fill_undefined n_read led_count colors =
     (if n_read < led_count then fill_undefined (Suc n_read) led_count (colors[n_read := 0])
      else colors)"
  by pat_completeness auto
termination
  by (relation "measure (\<lambda>(n_read, led_count, colors). led_count - n_read)") auto

declare fill_undefined.simps [simp del]

text \<open>
  \<open>load_leds\<close> returns the diagnostics and the caller's array after the call. The array
  must hold \<open>led_count\<close> entries; writing past its end is undefined behaviour (\<open>None\<close>).
\<close>

definition load_leds :: "fs \<Rightarrow> string \<Rightarrow> u32 list \<Rightarrow> nat \<Rightarrow> (msg list \<times> u32 list) option" where
  "load_leds files filename colors led_count =
     (if length colors < led_count then None
      else
        (case files filename of
           None \<Rightarrow> Some ([Failed_to_load filename], fill_undefined 0 led_count colors)
         | Some content \<Rightarrow>
             (let (n_read, colors') = fread content colors led_count
              in Some (if n_read < led_count then [Insufficient_data filename] else [],
                       fill_undefined n_read led_count colors'))))"

text \<open>
  \<open>store_leds\<close>: the outcome of the write is an input, \<open>None\<close> when \<^verbatim>\<open>fopen\<close> fails and
  \<open>Some k\<close> when \<^verbatim>\<open>fwrite\<close> can write \<open>k\<close> items before it stops. \<^verbatim>\<open>fopen\<close> with mode
  \<^verbatim>\<open>"w+"\<close> empties the file.
\<close>

definition store_leds :: "fs \<Rightarrow> nat option \<Rightarrow> string \<Rightarrow> u32 list \<Rightarrow> nat \<Rightarrow> msg list \<times> fs" where
  "store_leds files outcome filename colors led_count =
     (case outcome of
        None \<Rightarrow> ([Failed_to_save filename], files)
      | Some k \<Rightarrow>
          (let n_written = min k led_count
           in (if n_written < led_count then [Could_not_write_all filename] else [],
               files(filename := Some (concat (map bytes_of_u32 (take n_written colors)))))))"


section \<open>Time\<close>

record timespec =
  tv_sec :: int
  tv_nsec :: int

text \<open>C integer division truncates towards zero.\<close>

definition c_div :: "int \<Rightarrow> int \<Rightarrow> int" where
  "c_div a b = sgn a * sgn b * (\<bar>a\<bar> div \<bar>b\<bar>)"

text \<open>
  \<^verbatim>\<open>(float)(sec) + (float)(nsec / 1000000ll) / 1e3\<close>: the constant \<^verbatim>\<open>1e3\<close> is a
  \<^verbatim>\<open>double\<close>, so the division and the addition are done in \<^verbatim>\<open>double\<close> and the result is
  converted to \<^verbatim>\<open>float\<close> on return.
\<close>

definition get_timespan :: "timespec \<Rightarrow> timespec \<Rightarrow> fp" where
  "get_timespan time1 time0 =
     float_of_double
       (fadd binary64 (float_of_int (tv_sec time1 - tv_sec time0))
          (fdiv binary64 (float_of_int (c_div (tv_nsec time1 - tv_nsec time0) 1000000))
             (Val 1000)))"



section \<open>Command line\<close>

record params =
  prog_name :: string
  color :: u32
  color_specified :: bool
  duration :: fp
  limit_brightness_flag :: bool

text \<open>
  \<^verbatim>\<open>sscanf\<close> belongs to the C library: \<open>scan_x\<close> is \<^verbatim>\<open>sscanf(s, "%x", &v)\<close> and \<open>scan_f\<close> is
  \<^verbatim>\<open>sscanf(s, "%f", &v)\<close>, \<open>None\<close> when fewer than one item is converted. The loop
  \<^verbatim>\<open>while (++argv, --argc)\<close> walks the arguments after the program name.
\<close>

fun parse_args ::
  "(string \<Rightarrow> u32 option) \<Rightarrow> (string \<Rightarrow> fp option) \<Rightarrow> string list \<Rightarrow> params
    \<Rightarrow> msg list \<times> int \<times> params" where
  "parse_args scan_x scan_f [] p = ([], 0, p)"
| "parse_args scan_x scan_f (a # rest) p =
     (if a = ''--help'' \<or> a = ''-h'' then ([], - 1, p)
      else if a = ''--not-brighter'' then
        parse_args scan_x scan_f rest (p\<lparr>limit_brightness_flag := True\<rparr>)
      else if a = ''--time'' \<or> a = ''-t'' then
        (case rest of
           [] \<Rightarrow> ([Expected_argument_after_time], - 1, p)
         | t # rest' \<Rightarrow>
             (case scan_f t of
                None \<Rightarrow> ([Expected_float_after_time], - 1, p)
              | Some d \<Rightarrow> parse_args scan_x scan_f rest' (p\<lparr>duration := d\<rparr>)))
      else if \<not> color_specified p then
        (case scan_x a of
           None \<Rightarrow> ([Unknown_argument_not_hex a], - 1, p)
         | Some c \<Rightarrow> parse_args scan_x scan_f rest (p\<lparr>color := c, color_specified := True\<rparr>))
      else ([Unknown_argument_one_color a], - 1, p))"

text \<open>An empty argument vector (\<^verbatim>\<open>argc = 0\<close>) makes the loop read past it: \<open>None\<close>.\<close>

definition parse_cmdline ::
  "(string \<Rightarrow> u32 option) \<Rightarrow> (string \<Rightarrow> fp option) \<Rightarrow> string list
    \<Rightarrow> (msg list \<times> int \<times> params) option" where
  "parse_cmdline scan_x scan_f argv =
     (case argv of
        [] \<Rightarrow> None
      | name # args \<Rightarrow>
          Some (parse_args scan_x scan_f args
                  \<lparr>prog_name = name, color = 0, color_specified = False,
                   duration = Val 0, limit_brightness_flag = False\<rparr>))"

section \<open>Fade engine\<close>

record ws2811_channel_t =
  gpionum :: int
  count :: nat
  invert :: int
  brightness :: int

record ws2811_t =
  dmanum :: int
  channel :: "ws2811_channel_t list"

definition ledstrip :: ws2811_t where
  "ledstrip =
     \<lparr>dmanum = 4,
      channel =
        [\<lparr>gpionum = 18, count = 167, invert = 0, brightness = 255\<rparr>,
         \<lparr>gpionum = 13, count = 109, invert = 1, brightness = 255\<rparr>]\<rparr>"

text \<open>
  Modelled from the spec: the status type \<^verbatim>\<open>ws2811_return_t\<close> of the driver header
  \<^verbatim>\<open>ws2811.h\<close>, which is not part of the sources; the driver's status code is 0 on
  success and a driver-specific nonzero code otherwise.
\<close>

definition WS2811_SUCCESS :: int where
  "WS2811_SUCCESS = 0"

text \<open>
  What the process does to the world, in order: text printed, the call of \<^verbatim>\<open>setuid\<close>,
  the driver calls with the frame handed to \<^verbatim>\<open>ws2811_render\<close>, and the sleeps. The state
  files are the \<open>fs\<close> component of the result.
\<close>

datatype event =
    Print msg
  | Setuid_root
  | Hw_init
  | Hw_render "u32 list" "u32 list"
  | Hw_fini
  | Usleep nat

text \<open>
  What one pass through the loop reads from outside: the flag \<^verbatim>\<open>running\<close> (cleared by the
  signal handler), the clock (\<open>None\<close> when \<^verbatim>\<open>clock_gettime\<close> fails), the status of
  \<^verbatim>\<open>ws2811_render\<close>, and the outcomes of the two writes.
\<close>

record frame =
  f_running :: bool
  f_clock :: "timespec option"
  f_render :: int
  f_store0 :: "nat option"
  f_store1 :: "nat option"

record env =
  e_argv :: "string list"
  e_scan_x :: "string \<Rightarrow> u32 option"
  e_scan_f :: "string \<Rightarrow> fp option"
  e_setuid :: int
  e_files :: fs
  e_junk :: u32
  e_clock :: "timespec option"
  e_init :: int
  e_frames :: "frame list"

datatype outcome = Exit int | Undefined_behaviour | Still_running

text \<open>
  \<^verbatim>\<open>float progress = get_timespan(&currenttime, &starttime) / params.duration;
  if (!(progress < 1)) progress = 1;\<close>
\<close>

definition fade_progress :: "fp \<Rightarrow> fp \<Rightarrow> fp" where
  "fade_progress elapsed dur =
     (let progress = fdiv binary32 elapsed dur
      in if \<not> flt progress (float_of_int 1) then float_of_int 1 else progress)"

text \<open>The loops over the LEDs of one channel: the end state, and one rendered frame.\<close>

definition end_colors :: "params \<Rightarrow> u32 list \<Rightarrow> u32 list option" where
  "end_colors p start =
     those (map (\<lambda>s. if limit_brightness_flag p then limit_brightness (color p) s
                      else Some (color p)) start)"

definition render_leds :: "u32 list \<Rightarrow> u32 list \<Rightarrow> fp \<Rightarrow> u32 list option" where
  "render_leds start end progress =
     those (map (\<lambda>(s, e). blend_colors s e progress) (zip start end))"

text \<open>
  The loop \<^verbatim>\<open>while (running) { ... }\<close>, one frame of the environment per pass; \<open>ret\<close> is
  the variable \<^verbatim>\<open>ret\<close> of \<^verbatim>\<open>main\<close>. The result is the events, the state files and the
  exit: \<open>Exit ret\<close> when the loop is left, \<open>Still_running\<close> when the frames of the
  environment are used up before that.
\<close>

fun animate ::
  "ws2811_t \<Rightarrow> u32 list \<Rightarrow> u32 list \<Rightarrow> u32 list \<Rightarrow> u32 list \<Rightarrow> timespec \<Rightarrow> fp \<Rightarrow> int \<Rightarrow> fs
    \<Rightarrow> frame list \<Rightarrow> event list \<times> fs \<times> outcome" where
  "animate strip start0 end0 start1 end1 starttime dur ret files [] = ([], files, Still_running)"
| "animate strip start0 end0 start1 end1 starttime dur ret files (f # fs) =
     (if \<not> f_running f then ([], files, Exit ret)
      else
        (case f_clock f of
           None \<Rightarrow> ([Print Clock_failed], files, Exit ret)
         | Some currenttime \<Rightarrow>
             (let progress = fade_progress (get_timespan currenttime starttime) dur
              in case (render_leds start0 end0 progress, render_leds start1 end1 progress) of
                   (Some leds0, Some leds1) \<Rightarrow>
                     (if f_render f \<noteq> WS2811_SUCCESS then
                        ([Hw_render leds0 leds1, Print (Render_failed (f_render f))], files,
                         Exit (f_render f))
                      else
                        (let (m0, files0) =
                               store_leds files (f_store0 f) ''/tmp/leds0'' leds0
                                 (count (channel strip ! 0));
                             (m1, files1) =
                               store_leds files0 (f_store1 f) ''/tmp/leds1'' leds1
                                 (count (channel strip ! 1));
                             shown = Hw_render leds0 leds1 # map Print (m0 @ m1)
                         in if fge progress (float_of_int 1) then (shown, files1, Exit (f_render f))
                            else
                              (let (evs, files2, out) =
                                     animate strip start0 end0 start1 end1 starttime dur
                                       (f_render f) files1 fs
                               in (shown @ Usleep (1000000 div 100) # evs, files2, out))))
                 | _ \<Rightarrow> ([], files, Undefined_behaviour))))"

definition run :: "ws2811_t \<Rightarrow> env \<Rightarrow> event list \<times> fs \<times> outcome" where
  "run strip env =
     (case parse_cmdline (e_scan_x env) (e_scan_f env) (e_argv env) of
        None \<Rightarrow> ([], e_files env, Undefined_behaviour)
      | Some (msgs, rc, p) \<Rightarrow>
          if rc \<noteq> 0 then
            (map Print msgs @ [Print (Usage_text (hd (e_argv env)))], e_files env, Exit (- 1))
          else if e_setuid env \<noteq> 0 then
            ([Setuid_root, Print (Could_not_impersonate_root (hd (e_argv env)))], e_files env,
             Exit (- 1))
          else
            (let n0 = count (channel strip ! 0); n1 = count (channel strip ! 1)
             in case (load_leds (e_files env) ''/tmp/leds0'' (replicate n0 (e_junk env)) n0,
                      load_leds (e_files env) ''/tmp/leds1'' (replicate n1 (e_junk env)) n1) of
                  (Some (l0, start0), Some (l1, start1)) \<Rightarrow>
                    (case (end_colors p start0, end_colors p start1) of
                       (Some end0, Some end1) \<Rightarrow>
                         (let loaded = Setuid_root # map Print (l0 @ l1)
                          in case e_clock env of
                               None \<Rightarrow> (loaded @ [Print Clock_failed], e_files env, Exit (- 1))
                             | Some starttime \<Rightarrow>
                                 if e_init env \<noteq> WS2811_SUCCESS then
                                   (loaded @ [Hw_init, Print (Init_failed (e_init env))],
                                    e_files env, Exit (e_init env))
                                 else
                                   (let (evs, files', out) =
                                          animate strip start0 end0 start1 end1 starttime
                                            (duration p) (e_init env) (e_files env) (e_frames env)
                                    in (loaded @ Hw_init # evs @
                                          (case out of Exit r \<Rightarrow> [Hw_fini] | _ \<Rightarrow> []),
                                        files', out)))
                     | _ \<Rightarrow> ([Setuid_root], e_files env, Undefined_behaviour))
                | _ \<Rightarrow> ([Setuid_root], e_files env, Undefined_behaviour)))"

text \<open>\<^verbatim>\<open>main\<close> runs on the strip configured in the global \<^verbatim>\<open>ledstrip\<close>.\<close>

definition main :: "env \<Rightarrow> event list \<times> fs \<times> outcome" where
  "main env = run ledstrip env"




section \<open>Properties of rounding\<close>

lemma bitlen_powi_bounds:
  assumes "0 < a"
  shows "2 powi (bitlen a - 1) \<le> (of_int a :: rat)" and "(of_int a :: rat) < 2 powi (bitlen a)"
proof -
  from bitlen_bounds [OF assms]
  have lo: "2 ^ nat (bitlen a - 1) \<le> a" and hi: "a < 2 ^ nat (bitlen a)" by simp_all
  have b1: "1 \<le> bitlen a" using assms bitlen_eq_zero_iff [of a] bitlen_nonneg [of a] by linarith
  have "(2::rat) powi (bitlen a - 1) = 2 ^ nat (bitlen a - 1)"
    using b1 by (simp add: power_int_def)
  also have "\<dots> = of_int (2 ^ nat (bitlen a - 1))" by simp
  also have "\<dots> \<le> of_int a" using lo by (simp only: of_int_le_iff)
  finally show "2 powi (bitlen a - 1) \<le> (of_int a :: rat)" .
  have "(of_int a :: rat) < of_int (2 ^ nat (bitlen a))" using hi by (simp only: of_int_less_iff)
  also have "\<dots> = 2 ^ nat (bitlen a)" by simp
  also have "\<dots> = 2 powi (bitlen a)" using b1 by (simp add: power_int_def)
  finally show "(of_int a :: rat) < 2 powi (bitlen a)" .
qed

lemma ilog2_bounds:
  assumes "0 < x"
  shows "2 powi (ilog2 x) \<le> x" and "x < 2 powi (ilog2 x + 1)"
proof -
  obtain a b where q: "quotient_of x = (a, b)" by (cases "quotient_of x")
  have bpos: "0 < b" using q quotient_of_denom_pos by blast
  have xab: "x = of_int a / of_int b" using q quotient_of_div by blast
  have apos: "0 < a" using assms bpos xab by (simp add: zero_less_divide_iff)
  define d where "d = bitlen a - bitlen b"
  have bq: "0 < (of_int b :: rat)" using bpos by simp
  have up: "x < 2 powi (d + 1)"
  proof -
    have "x * of_int b = of_int a" using xab bq by simp
    also have "\<dots> < 2 powi (bitlen a)" by (rule bitlen_powi_bounds(2) [OF apos])
    also have "\<dots> = 2 powi (d + 1) * 2 powi (bitlen b - 1)"
      by (simp add: d_def power_int_add [symmetric])
    also have "\<dots> \<le> 2 powi (d + 1) * of_int b"
      using bitlen_powi_bounds(1) [OF bpos] by (simp add: mult_left_mono)
    finally show ?thesis using bq by simp
  qed
  have lo: "2 powi (d - 1) \<le> x"
  proof -
    have "(2::rat) powi (d - 1) * of_int b \<le> 2 powi (d - 1) * 2 powi (bitlen b)"
      using bitlen_powi_bounds(2) [OF bpos] by (simp add: mult_left_mono less_imp_le)
    also have "\<dots> = 2 powi (bitlen a - 1)"
      by (simp add: d_def power_int_add [symmetric])
    also have "\<dots> \<le> of_int a" by (rule bitlen_powi_bounds(1) [OF apos])
    also have "\<dots> = x * of_int b" using xab bq by simp
    finally show ?thesis using bq by simp
  qed
  have il: "ilog2 x = (if 2 powi d \<le> x then d else d - 1)"
    by (simp add: ilog2_def q d_def Let_def)
  show "2 powi (ilog2 x) \<le> x" using il lo by (simp split: if_splits)
  show "x < 2 powi (ilog2 x + 1)" using il up by (simp split: if_splits)
qed

lemma ilog2_less:
  assumes "0 < x" "x < 2 powi k"
  shows "ilog2 x < k"
proof (rule ccontr)
  assume "\<not> ilog2 x < k"
  then have "k \<le> ilog2 x" by simp
  then have "(2::rat) powi k \<le> 2 powi (ilog2 x)" by (simp add: power_int_increasing)
  with ilog2_bounds(1) [OF assms(1)] assms(2) show False by simp
qed

lemma ilog2_ge:
  assumes "0 < x" "2 powi k \<le> x"
  shows "k \<le> ilog2 x"
proof (rule ccontr)
  assume "\<not> k \<le> ilog2 x"
  then have "ilog2 x + 1 \<le> k" by simp
  then have "(2::rat) powi (ilog2 x + 1) \<le> 2 powi k" by (simp add: power_int_increasing)
  with ilog2_bounds(2) [OF assms(1)] assms(2) show False by simp
qed

lemma rne_error: "\<bar>of_int (rne q) - q\<bar> \<le> 1 / 2"
proof -
  have "of_int \<lfloor>q\<rfloor> \<le> q" "q < of_int \<lfloor>q\<rfloor> + 1" by linarith+
  then show ?thesis by (auto simp: rne_def Let_def)
qed

lemma rne_of_int [simp]: "rne (of_int n) = n"
  by (simp add: rne_def)

lemma rne_nonneg: "0 \<le> q \<Longrightarrow> 0 \<le> rne q"
  by (auto simp: rne_def Let_def)


lemma ulp_pos: "0 < ulp fmt x"
  by (simp add: ulp_def)

lemma ulp_le:
  assumes "0 < x" "x < 2 powi k" "emin fmt < k"
  shows "ulp fmt x \<le> 2 powi (k - int (prec fmt))"
proof -
  have "ilog2 x < k" by (rule ilog2_less [OF assms(1,2)])
  then have "max (ilog2 x) (emin fmt) - int (prec fmt) + 1 \<le> k - int (prec fmt)"
    using assms(3) by simp
  then show ?thesis unfolding ulp_def by (simp add: power_int_increasing)
qed

lemma rnd_abs_error:
  assumes "0 < x" "x < 2 powi k" "emin fmt < k" "k \<le> emax fmt"
  shows "\<exists>y. rnd_abs fmt x = Some y \<and> 0 \<le> y \<and> \<bar>y - x\<bar> \<le> 2 powi (k - int (prec fmt) - 1)"
proof -
  define u where "u = ulp fmt x"
  define y where "y = of_int (rne (x / u)) * u"
  have upos: "0 < u" by (simp add: u_def ulp_pos)
  have ule: "u \<le> 2 powi (k - int (prec fmt))" unfolding u_def by (rule ulp_le [OF assms(1-3)])
  have "y - x = (of_int (rne (x / u)) - x / u) * u" using upos by (simp add: y_def field_simps)
  then have "\<bar>y - x\<bar> = \<bar>of_int (rne (x / u)) - x / u\<bar> * u"
    using upos by (simp add: abs_mult)
  also have "\<dots> \<le> 1 / 2 * u" using rne_error [of "x / u"] upos by (simp add: mult_right_mono)
  also have "\<dots> \<le> 1 / 2 * 2 powi (k - int (prec fmt))" using ule by simp
  also have "\<dots> = 2 powi (k - int (prec fmt) - 1)" by (simp add: power_int_diff)
  finally have err: "\<bar>y - x\<bar> \<le> 2 powi (k - int (prec fmt) - 1)" .
  have ynn: "0 \<le> y" using upos assms(1) by (simp add: y_def rne_nonneg)
  have "(2::rat) powi (k - int (prec fmt) - 1) \<le> 2 powi k" by (simp add: power_int_increasing)
  then have "y < 2 powi k + 2 powi k" using err assms(2) by linarith
  also have "\<dots> = 2 powi (k + 1)" by (simp add: power_int_add)
  also have "\<dots> \<le> 2 powi (emax fmt + 1)" using assms(4) by (simp add: power_int_increasing)
  finally have "\<not> 2 powi (emax fmt + 1) \<le> y" by simp
  then have "rnd_abs fmt x = Some y" by (simp add: rnd_abs_def y_def u_def Let_def)
  with ynn err show ?thesis by blast
qed

lemma rnd32_bound:
  assumes "0 \<le> x" "x < 2 powi k" "- 126 < k" "k \<le> 127"
  shows "\<exists>y. rnd binary32 x = Val y \<and> 0 \<le> y \<and> \<bar>y - x\<bar> \<le> 2 powi (k - 25)"
proof (cases "x = 0")
  case True
  then show ?thesis by (simp add: rnd_def)
next
  case False
  then have xpos: "0 < x" using assms(1) by simp
  from rnd_abs_error [of x k binary32] xpos assms(2-4)
  obtain y where "rnd_abs binary32 x = Some y" "0 \<le> y" "\<bar>y - x\<bar> \<le> 2 powi (k - 25)"
    by (auto simp: binary32_def)
  then show ?thesis using xpos by (simp add: rnd_def)
qed

lemma rnd_abs_exact:
  assumes "0 < x" "x / ulp fmt x = of_int m" "x < 2 powi (emax fmt + 1)"
  shows "rnd_abs fmt x = Some x"
proof -
  have "rne (x / ulp fmt x) = m" by (simp only: assms(2) rne_of_int)
  then have "of_int (rne (x / ulp fmt x)) = x / ulp fmt x" using assms(2) by simp
  then have "of_int (rne (x / ulp fmt x)) * ulp fmt x = x"
    using ulp_pos [of fmt x] by simp
  then show ?thesis using assms(3) by (simp add: rnd_abs_def Let_def)
qed

lemma rnd32_of_int:
  assumes "0 \<le> n" "n < 2 ^ 24"
  shows "rnd binary32 (of_int n) = Val (of_int n)"
proof (cases "n = 0")
  case True
  then show ?thesis by (simp add: rnd_def)
next
  case False
  then have npos: "0 < (of_int n :: rat)" using assms(1) by simp
  have "(2::rat) powi 0 \<le> of_int n" using False assms(1) by simp
  then have e0: "0 \<le> ilog2 (of_int n)" by (rule ilog2_ge [OF npos])
  have "(of_int n :: rat) < of_int (2 ^ 24)" using assms(2) by (simp only: of_int_less_iff)
  then have n24: "(of_int n :: rat) < 2 powi 24" by simp
  then have e24: "ilog2 (of_int n) < 24" by (rule ilog2_less [OF npos])
  define e where "e = ilog2 (of_int n)"
  have u: "ulp binary32 (of_int n) = 2 powi (e - 23)"
    using e0 by (simp add: ulp_def binary32_def e_def max_def)
  have "(of_int n :: rat) / 2 powi (e - 23) = of_int n * 2 powi (23 - e)"
    by (simp add: power_int_diff)
  also have "(2::rat) powi (23 - e) = 2 ^ nat (23 - e)"
    using e24 by (simp add: power_int_def e_def)
  also have "of_int n * (2::rat) ^ nat (23 - e) = of_int (n * 2 ^ nat (23 - e))" by simp
  finally have q: "of_int n / ulp binary32 (of_int n) = (of_int (n * 2 ^ nat (23 - e)) :: rat)"
    by (simp only: u)
  have "(of_int n :: rat) < 2 powi (emax binary32 + 1)"
    using n24 by (simp add: binary32_def)
  then have "rnd_abs binary32 (of_int n) = Some (of_int n)"
    by (rule rnd_abs_exact [OF npos q])
  then show ?thesis using npos by (simp add: rnd_def)
qed

section \<open>Channels of a packed colour\<close>

lemma mask8: "(0xff :: u32) = mask 8" by (simp add: mask_eq_exp_minus_1)

lemma uint_chan: "uint (drop_bit s (c::u32) AND 0xff) = (uint c div 2 ^ s) mod 256"
proof -
  have "drop_bit s c AND 0xff = take_bit 8 (drop_bit s c)"
    by (simp only: mask8 take_bit_eq_mask)
  moreover have "take_bit 32 (uint c) = uint c"
    by (rule take_bit_int_eq_self) (use uint_lt2p [of c] in simp_all)
  ultimately have "uint (drop_bit s c AND 0xff) = take_bit 8 (drop_bit s (uint c))"
    by (simp add: unsigned_take_bit_eq unsigned_drop_bit_eq)
  then show ?thesis by (simp add: take_bit_eq_mod drop_bit_eq_div)
qed

lemma divmod256:
  fixes q r :: int
  assumes "0 \<le> r" "r < 256"
  shows "(q * 256 + r) div 256 = q" and "(q * 256 + r) mod 256 = r"
  using assms by simp_all

lemma div_2_16: "(x::int) div 65536 = x div 256 div 256"
  using zdiv_zmult2_eq [of 256 x 256] by simp

lemma div_2_24: "(x::int) div 16777216 = x div 256 div 256 div 256"
  using zdiv_zmult2_eq [of 65536 x 256] zdiv_zmult2_eq [of 256 "x div 256" 256]
  by simp

lemma uint_pack:
  assumes "0 \<le> w" "w \<le> 255" "0 \<le> r" "r \<le> 255" "0 \<le> g" "g \<le> 255" "0 \<le> b" "b \<le> 255"
  shows "uint (push_bit 24 (word_of_int w :: u32) + push_bit 16 (word_of_int r) + push_bit 8 (word_of_int g) + push_bit 0 (word_of_int b))
     = w * 16777216 + r * 65536 + g * 256 + b"
proof -
  define E where "E = w * 16777216 + r * 65536 + g * 256 + b"
  have eq: "push_bit 24 (word_of_int w :: u32) + push_bit 16 (word_of_int r) + push_bit 8 (word_of_int g) + push_bit 0 (word_of_int b)
     = word_of_int E"
    by (simp add: push_bit_eq_mult E_def)
  have lo: "0 \<le> E" using assms by (simp add: E_def)
  have hi: "E < 2 ^ 32" using assms by (simp add: E_def)
  have "uint (word_of_int E :: u32) = E mod 2 ^ 32"
    by (simp add: uint_word_of_int)
  also have "\<dots> = E"
    using lo hi by (rule mod_pos_pos_trivial)
  finally show ?thesis unfolding eq E_def .
qed

lemma chan_decompose:
  fixes x :: int
  assumes "0 \<le> x" "x < 4294967296"
  shows "(x div 16777216) mod 256 * 16777216 + (x div 65536) mod 256 * 65536 + (x div 256) mod 256 * 256 + x mod 256 = x"
proof -
  define x1 where "x1 = x div 256"
  define x2 where "x2 = x1 div 256"
  define x3 where "x3 = x2 div 256"
  have e0: "x = x1 * 256 + x mod 256" by (simp add: x1_def)
  have e1: "x1 = x2 * 256 + x1 mod 256" by (simp add: x2_def)
  have e2: "x2 = x3 * 256 + x2 mod 256" by (simp add: x3_def)
  have "0 \<le> x3" using assms(1) by (simp add: x3_def x2_def x1_def pos_imp_zdiv_nonneg_iff)
  moreover have "x div 16777216 < 256" using assms(2) by simp
  then have "x3 < 256" by (simp add: x3_def x2_def x1_def div_2_24)
  ultimately have e3: "x3 mod 256 = x3" by simp
  have d: "x div 16777216 = x3" "x div 65536 = x2" "x div 256 = x1"
    by (simp_all add: div_2_24 div_2_16 x1_def x2_def x3_def)
  have "x3 * 16777216 + x2 mod 256 * 65536 + x1 mod 256 * 256 + x mod 256 = x"
    using e0 e1 e2 by linarith
  then show ?thesis unfolding d e3 .
qed

lemma chan_of_pack:
  fixes w r g b :: int
  assumes "0 \<le> w" "w \<le> 255" "0 \<le> r" "r \<le> 255" "0 \<le> g" "g \<le> 255" "0 \<le> b" "b \<le> 255"
  defines "N \<equiv> w * 16777216 + r * 65536 + g * 256 + b"
  shows "(N div 16777216) mod 256 = w"
    and "(N div 65536) mod 256 = r"
    and "(N div 256) mod 256 = g"
    and "N mod 256 = b"
proof -
  have n0: "N = (w * 65536 + r * 256 + g) * 256 + b" by (simp add: N_def)
  have d1: "N div 256 = w * 65536 + r * 256 + g"
    unfolding n0 by (rule divmod256(1)) (use assms in simp_all)
  show m0: "N mod 256 = b"
    unfolding n0 by (rule divmod256(2)) (use assms in simp_all)
  have n1: "w * 65536 + r * 256 + g = (w * 256 + r) * 256 + g" by simp
  have d2: "N div 256 div 256 = w * 256 + r"
    unfolding d1 n1 by (rule divmod256(1)) (use assms in simp_all)
  show m1: "N div 256 mod 256 = g"
    unfolding d1 n1 by (rule divmod256(2)) (use assms in simp_all)
  have d3: "N div 256 div 256 div 256 = w"
    unfolding d2 by (rule divmod256(1)) (use assms in simp_all)
  have m2: "N div 256 div 256 mod 256 = r"
    unfolding d2 by (rule divmod256(2)) (use assms in simp_all)
  have m3: "w mod 256 = w" using assms by simp
  show "(N div 16777216) mod 256 = w" unfolding div_2_24 d3 by (rule m3)
  show "(N div 65536) mod 256 = r" unfolding div_2_16 by (rule m2)
qed

section \<open>Brightness as a number\<close>

lemma chan_bounds: "0 \<le> chan s c" "chan s c \<le> 255"
  by (simp_all add: chan_def uint_chan)

lemma float_of_int_exact: "0 \<le> n \<Longrightarrow> n < 2 ^ 24 \<Longrightarrow> float_of_int n = Val (of_int n)"
  by (simp add: float_of_int_def rnd32_of_int)

lemma float_of_int_1 [simp]: "float_of_int 1 = Val 1"
  using float_of_int_exact [of 1] by simp

lemma float_of_u32_chan: "float_of_u32 (drop_bit s c AND 0xff) = Val (of_int (chan s c))"
proof -
  have "chan s c < 2 ^ 24" using chan_bounds(2) [of s c] by simp
  then show ?thesis
    using chan_bounds(1) [of s c] by (simp add: float_of_u32_def float_of_int_exact chan_def)
qed

lemma weighted_sum_bounds: "0 \<le> weighted_sum c" "weighted_sum c \<le> 3060"
  using chan_bounds [of 24 c] chan_bounds [of 16 c] chan_bounds [of 8 c] chan_bounds [of 0 c]
  by (simp_all add: weighted_sum_def)

lemma uint_weighted_sum:
  "uint ((drop_bit 24 c AND 0xff) * w_brightness + (drop_bit 16 c AND 0xff) * r_brightness
        + (drop_bit 8 c AND 0xff) * g_brightness + (drop_bit 0 c AND 0xff) * b_brightness)
   = weighted_sum c"
proof -
  have "uint ((drop_bit 24 c AND 0xff) * w_brightness + (drop_bit 16 c AND 0xff) * r_brightness
        + (drop_bit 8 c AND 0xff) * g_brightness + (drop_bit 0 c AND 0xff) * b_brightness)
     = weighted_sum c mod 2 ^ 32"
    unfolding weighted_sum_def chan_def w_brightness_def r_brightness_def g_brightness_def b_brightness_def
    by (simp add: uint_word_ariths mod_simps)
  also have "\<dots> = weighted_sum c"
    using weighted_sum_bounds [of c] by simp
  finally show ?thesis .
qed

lemma fdiv_Val: "0 \<le> a \<Longrightarrow> 0 < b \<Longrightarrow> fdiv fmt (Val a) (Val b) = rnd fmt (a / b)"
  by (simp add: fdiv_def signed_zero_def rnd_def)

lemma fmul_Val: "0 \<le> a \<Longrightarrow> 0 \<le> b \<Longrightarrow> fmul fmt (Val a) (Val b) = rnd fmt (a * b)"
  by (auto simp add: fmul_def signed_zero_def rnd_def)

lemma fadd_Val: "0 \<le> a \<Longrightarrow> 0 \<le> b \<Longrightarrow> fadd fmt (Val a) (Val b) = rnd fmt (a + b)"
  by (auto simp add: fadd_def signed_zero_def rnd_def)

lemma get_brightness_rnd: "get_brightness c = rnd binary32 (of_int (weighted_sum c) / 12)"
proof -
  have n: "float_of_u32 ((drop_bit 24 c AND 0xff) * w_brightness + (drop_bit 16 c AND 0xff) * r_brightness
        + (drop_bit 8 c AND 0xff) * g_brightness + (drop_bit 0 c AND 0xff) * b_brightness)
      = Val (of_int (weighted_sum c))"
    unfolding float_of_u32_def uint_weighted_sum
    using weighted_sum_bounds [of c] by (simp add: float_of_int_exact)
  have d: "float_of_u32 (w_brightness + r_brightness + g_brightness + b_brightness) = Val 12"
    using float_of_int_exact [of 12]
    by (simp add: float_of_u32_def w_brightness_def r_brightness_def g_brightness_def b_brightness_def)
  show ?thesis
    unfolding get_brightness_def n d
    using weighted_sum_bounds(1) [of c] by (simp add: fdiv_Val)
qed

lemma get_brightness_val:
  "\<exists>b. get_brightness c = Val b \<and> 0 \<le> b \<and> \<bar>b - of_int (weighted_sum c) / 12\<bar> \<le> 1 / 131072"
proof -
  have "(of_int (weighted_sum c) :: rat) \<le> 3060"
    using weighted_sum_bounds(2) [of c] by (metis of_int_le_iff of_int_numeral)
  then have hi: "(of_int (weighted_sum c) :: rat) / 12 < 2 powi 8" by simp
  have lo: "0 \<le> (of_int (weighted_sum c) :: rat) / 12" using weighted_sum_bounds(1) [of c] by simp
  from rnd32_bound [OF lo hi] show ?thesis by (simp add: get_brightness_rnd)
qed

lemma flt_brightness_iff:
  "flt (get_brightness r) (get_brightness c) \<longleftrightarrow> weighted_sum r < weighted_sum c"
proof -
  obtain x where x: "get_brightness r = Val x" "\<bar>x - of_int (weighted_sum r) / 12\<bar> \<le> 1 / 131072"
    using get_brightness_val [of r] by blast
  obtain y where y: "get_brightness c = Val y" "\<bar>y - of_int (weighted_sum c) / 12\<bar> \<le> 1 / 131072"
    using get_brightness_val [of c] by blast
  consider "weighted_sum r < weighted_sum c" | "weighted_sum r = weighted_sum c" | "weighted_sum c < weighted_sum r"
    by linarith
  then show ?thesis
  proof cases
    case 1
    then have "weighted_sum r + 1 \<le> weighted_sum c" by simp
    then have "(of_int (weighted_sum r) :: rat) + 1 \<le> of_int (weighted_sum c)"
      by (metis of_int_le_iff of_int_add of_int_1)
    then have "x < y" using x(2) y(2) by linarith
    then show ?thesis using 1 x(1) y(1) by simp
  next
    case 2
    then have "get_brightness r = get_brightness c" by (simp add: get_brightness_rnd)
    then show ?thesis using 2 x(1) y(1) by simp
  next
    case 3
    then have "weighted_sum c + 1 \<le> weighted_sum r" by simp
    then have "(of_int (weighted_sum c) :: rat) + 1 \<le> of_int (weighted_sum r)"
      by (metis of_int_le_iff of_int_add of_int_1)
    then have "y < x" using x(2) y(2) by linarith
    then show ?thesis using 3 x(1) y(1) by simp
  qed
qed

section \<open>Scaling one channel\<close>

lemma u32_of_float_floor:
  assumes "0 \<le> q" "q < 4294967296"
  shows "u32_of_float (Val q) = Some (word_of_int \<lfloor>q\<rfloor>)"
proof -
  have "\<lfloor>q\<rfloor> < 4294967296" using assms(2) by (simp add: floor_less_iff)
  moreover have "0 \<le> \<lfloor>q\<rfloor>" using assms(1) by simp
  ultimately show ?thesis using assms(1) by (simp add: trunc_rat_def)
qed

lemma scale_channel:
  fixes n A B :: int and x y :: rat
  assumes n: "0 \<le> n" "n \<le> 255"
    and A: "0 \<le> A" "A < B" and B: "B \<le> 3060"
    and x: "0 \<le> x" "\<bar>x - of_int A / 12\<bar> \<le> 1 / 131072"
    and y: "\<bar>y - of_int B / 12\<bar> \<le> 1 / 131072"
    and xy: "x < y"
  shows "\<exists>t. u32_of_float (fdiv binary32 (fmul binary32 (Val (of_int n)) (Val x)) (Val y))
               = Some (word_of_int t)
             \<and> 0 \<le> t \<and> t \<le> n \<and> t * B \<le> n * A \<and> n * A \<le> (t + 1) * B"
proof -
  define N :: rat where "N = of_int n"
  define RA :: rat where "RA = of_int A"
  define RB :: rat where "RB = of_int B"
  have N: "0 \<le> N" "N \<le> 255" using n by (simp_all add: N_def)
  have "A + 1 \<le> B" using A by simp
  then have AB: "RA + 1 \<le> RB" unfolding RA_def RB_def by (metis of_int_le_iff of_int_add of_int_1)
  have RA0: "0 \<le> RA" using A by (simp add: RA_def)
  have RB: "RB \<le> 3060" using B unfolding RB_def by (metis of_int_le_iff of_int_numeral)
  have x': "\<bar>x - RA / 12\<bar> \<le> 1 / 131072" using x(2) by (simp add: RA_def)
  have y': "\<bar>y - RB / 12\<bar> \<le> 1 / 131072" using y by (simp add: RB_def)
  have ypos: "1 / 13 < y" using y' AB RA0 by linarith
  have yhi: "y < 256" using y' RB by linarith
  have xhi: "x < 256" using xy yhi by simp
  \<comment> \<open>the product\<close>
  have Nx: "N * x \<le> 255 * x" using N x(1) by (simp add: mult_right_mono)
  have Nx0: "0 \<le> N * x" using N x(1) by simp
  have "N * x < 65536" using Nx xhi by linarith
  then have "N * x < 2 powi 16" by simp
  from rnd32_bound [OF Nx0 this]
  obtain m where m: "rnd binary32 (N * x) = Val m" "0 \<le> m" "\<bar>m - N * x\<bar> \<le> 1 / 512"
    by auto
  have mul: "fmul binary32 (Val (of_int n)) (Val x) = Val m"
    using N x(1) m(1) by (simp add: fmul_Val N_def)
  \<comment> \<open>the quotient\<close>
  have "m < 256 * y" using m(3) Nx xy ypos by linarith
  then have "m / y < 256" using ypos by (simp add: pos_divide_less_eq)
  then have my: "m / y < 2 powi 8" by simp
  have my0: "0 \<le> m / y" using m(2) ypos by simp
  from rnd32_bound [OF my0 my]
  obtain q where q: "rnd binary32 (m / y) = Val q" "0 \<le> q" "\<bar>q - m / y\<bar> \<le> 1 / 131072"
    by auto
  have dv: "fdiv binary32 (Val m) (Val y) = Val q"
    using m(2) ypos q(1) by (simp add: fdiv_Val)
  have qhi: "q < 257" using q(3) \<open>m / y < 256\<close> by linarith
  define t where "t = \<lfloor>q\<rfloor>"
  define T :: rat where "T = of_int t"
  have conv: "u32_of_float (Val q) = Some (word_of_int t)"
    unfolding t_def by (rule u32_of_float_floor) (use q(2) qhi in simp_all)
  have t0: "0 \<le> t" using q(2) by (simp add: t_def)
  have Tq: "T \<le> q" "q < T + 1" unfolding T_def t_def by linarith+
  have T0: "0 \<le> T" using t0 by (simp add: T_def)
  have Thi: "T \<le> 257" using Tq(1) qhi by linarith
  \<comment> \<open>clearing the denominator\<close>
  have "q - 1 / 131072 \<le> m / y" "m / y \<le> q + 1 / 131072" using q(3) by linarith+
  then have qy: "(q - 1 / 131072) * y \<le> m" "m \<le> (q + 1 / 131072) * y"
    using ypos by (simp_all add: pos_le_divide_eq pos_divide_le_eq)
  have Ty: "T * y \<le> q * y" using Tq(1) ypos by (simp add: mult_right_mono)
  define T1 where "T1 = T + 1"
  have T1: "0 \<le> T1" "T1 \<le> 258" "q \<le> T1" using T0 Thi Tq(2) by (simp_all add: T1_def)
  have Ty1: "q * y \<le> T1 * y" using T1(3) ypos by (simp add: mult_right_mono)
  have e1: "N * x \<le> N * RA / 12 + 255 / 131072"
  proof -
    have "N * x \<le> N * (RA / 12 + 1 / 131072)" using x' N(1) by (intro mult_left_mono) linarith+
    also have "\<dots> = N * RA / 12 + N / 131072" by (simp add: algebra_simps)
    finally show ?thesis using N(2) by linarith
  qed
  have e2: "N * RA / 12 - 255 / 131072 \<le> N * x"
  proof -
    have "N * (RA / 12 - 1 / 131072) \<le> N * x" using x' N(1) by (intro mult_left_mono) linarith+
    moreover have "N * (RA / 12 - 1 / 131072) = N * RA / 12 - N / 131072" by (simp add: algebra_simps)
    ultimately show ?thesis using N(2) by linarith
  qed
  have e3: "T * RB / 12 - 257 / 131072 \<le> T * y"
  proof -
    have "T * (RB / 12 - 1 / 131072) \<le> T * y" using y' T0 by (intro mult_left_mono) linarith+
    moreover have "T * (RB / 12 - 1 / 131072) = T * RB / 12 - T / 131072" by (simp add: algebra_simps)
    ultimately show ?thesis using Thi by linarith
  qed
  have e4: "T1 * y \<le> T1 * RB / 12 + 258 / 131072"
  proof -
    have "T1 * y \<le> T1 * (RB / 12 + 1 / 131072)" using y' T1(1) by (intro mult_left_mono) linarith+
    also have "\<dots> = T1 * RB / 12 + T1 / 131072" by (simp add: algebra_simps)
    finally show ?thesis using T1(2) by linarith
  qed
  have qy': "q * y - 256 / 131072 \<le> m" "m \<le> q * y + 256 / 131072"
    using qy yhi ypos by (simp_all add: algebra_simps)
  have up: "T * RB < N * RA + 1"
    using e3 Ty qy'(1) m(3) e1 by linarith
  have low: "N * RA - 1 < T1 * RB"
    using e4 Ty1 qy'(2) m(3) e2 by linarith
  have "of_int (t * B) < (of_int (n * A + 1) :: rat)"
    using up by (simp add: T_def N_def RA_def RB_def)
  then have "t * B < n * A + 1" by (simp only: of_int_less_iff)
  then have tB: "t * B \<le> n * A" by simp
  have "of_int (n * A - 1) < (of_int ((t + 1) * B) :: rat)"
    using low by (simp add: T1_def T_def N_def RA_def RB_def)
  then have "n * A - 1 < (t + 1) * B" by (simp only: of_int_less_iff)
  then have nA: "n * A \<le> (t + 1) * B" by simp
  have "t * B \<le> n * B" using tB A n(1) by (meson mult_left_mono order_trans less_imp_le)
  then have tn: "t \<le> n" using A by (simp add: mult_le_cancel_right)
  show ?thesis using conv mul dv t0 tn tB nA by auto
qed

section \<open>The limiter on all four channels\<close>

lemma chan_pack:
  assumes "0 \<le> w" "w \<le> 255" "0 \<le> r" "r \<le> 255" "0 \<le> g" "g \<le> 255" "0 \<le> b" "b \<le> 255"
  defines "L \<equiv> push_bit 24 (word_of_int w :: u32) + push_bit 16 (word_of_int r)
                 + push_bit 8 (word_of_int g) + push_bit 0 (word_of_int b)"
  shows "chan 24 L = w" and "chan 16 L = r" and "chan 8 L = g" and "chan 0 L = b"
proof -
  have u: "uint L = w * 16777216 + r * 65536 + g * 256 + b"
    unfolding L_def by (rule uint_pack [OF assms(1-8)])
  show "chan 24 L = w" using chan_of_pack(1) [OF assms(1-8)] by (simp add: chan_def uint_chan u)
  show "chan 16 L = r" using chan_of_pack(2) [OF assms(1-8)] by (simp add: chan_def uint_chan u)
  show "chan 8 L = g" using chan_of_pack(3) [OF assms(1-8)] by (simp add: chan_def uint_chan u)
  have "chan 0 L = (uint L div 2 ^ 0) mod 256" by (simp only: chan_def uint_chan)
  then show "chan 0 L = b" using chan_of_pack(4) [OF assms(1-8)] by (simp add: u)
qed

lemma pack_color_Some:
  assumes "u32_of_float a = Some w" "u32_of_float b = Some r" "u32_of_float c = Some g"
    "u32_of_float d = Some e"
  shows "pack_color a b c d = Some (push_bit 24 w + push_bit 16 r + push_bit 8 g + push_bit 0 e)"
  using assms by (simp add: pack_color_def)

lemma limit_brightness_scaled:
  assumes lt: "weighted_sum R < weighted_sum C"
  shows "\<exists>L. limit_brightness C R = Some L
           \<and> (\<forall>s \<in> {24, 16, 8, 0}.
                 0 \<le> chan s L \<and> chan s L \<le> chan s C \<and>
                 chan s L * weighted_sum C \<le> chan s C * weighted_sum R \<and>
                 chan s C * weighted_sum R \<le> (chan s L + 1) * weighted_sum C)"
proof -
  define A where "A = weighted_sum R"
  define B where "B = weighted_sum C"
  obtain x where x: "get_brightness R = Val x" "0 \<le> x" "\<bar>x - of_int A / 12\<bar> \<le> 1 / 131072"
    using get_brightness_val [of R] unfolding A_def by blast
  obtain y where y: "get_brightness C = Val y" "\<bar>y - of_int B / 12\<bar> \<le> 1 / 131072"
    using get_brightness_val [of C] unfolding B_def by blast
  have fl: "flt (get_brightness R) (get_brightness C)" using lt by (simp add: flt_brightness_iff)
  then have xy: "x < y" by (simp add: x(1) y(1))
  have AB: "0 \<le> A" "A < B" "B \<le> 3060"
    using lt weighted_sum_bounds(1) [of R] weighted_sum_bounds(2) [of C] by (simp_all add: A_def B_def)
  have ch: "\<exists>t. u32_of_float (fdiv binary32 (fmul binary32 (float_of_u32 (drop_bit s C AND 0xff)) (Val x)) (Val y))
               = Some (word_of_int t)
             \<and> 0 \<le> t \<and> t \<le> chan s C \<and> t * B \<le> chan s C * A \<and> chan s C * A \<le> (t + 1) * B" for s
    unfolding float_of_u32_chan
    by (rule scale_channel [OF chan_bounds(1) chan_bounds(2) AB(1) AB(2) AB(3) x(2) x(3) y(2) xy])
  from ch [of 24] obtain tw where tw: "u32_of_float (fdiv binary32 (fmul binary32 (float_of_u32 (drop_bit 24 C AND 0xff)) (Val x)) (Val y)) = Some (word_of_int tw)"
    "0 \<le> tw" "tw \<le> chan 24 C" "tw * B \<le> chan 24 C * A" "chan 24 C * A \<le> (tw + 1) * B" by blast
  from ch [of 16] obtain tr where tr: "u32_of_float (fdiv binary32 (fmul binary32 (float_of_u32 (drop_bit 16 C AND 0xff)) (Val x)) (Val y)) = Some (word_of_int tr)"
    "0 \<le> tr" "tr \<le> chan 16 C" "tr * B \<le> chan 16 C * A" "chan 16 C * A \<le> (tr + 1) * B" by blast
  from ch [of 8] obtain tg where tg: "u32_of_float (fdiv binary32 (fmul binary32 (float_of_u32 (drop_bit 8 C AND 0xff)) (Val x)) (Val y)) = Some (word_of_int tg)"
    "0 \<le> tg" "tg \<le> chan 8 C" "tg * B \<le> chan 8 C * A" "chan 8 C * A \<le> (tg + 1) * B" by blast
  from ch [of 0] obtain tb where tb: "u32_of_float (fdiv binary32 (fmul binary32 (float_of_u32 (drop_bit 0 C AND 0xff)) (Val x)) (Val y)) = Some (word_of_int tb)"
    "0 \<le> tb" "tb \<le> chan 0 C" "tb * B \<le> chan 0 C * A" "chan 0 C * A \<le> (tb + 1) * B" by blast
  define L where "L = push_bit 24 (word_of_int tw :: u32) + push_bit 16 (word_of_int tr)
                 + push_bit 8 (word_of_int tg) + push_bit 0 (word_of_int tb)"
  have hi: "tw \<le> 255" "tr \<le> 255" "tg \<le> 255" "tb \<le> 255"
    using tw(3) tr(3) tg(3) tb(3) chan_bounds(2) [of 24 C] chan_bounds(2) [of 16 C]
      chan_bounds(2) [of 8 C] chan_bounds(2) [of 0 C] by linarith+
  have cL: "chan 24 L = tw" "chan 16 L = tr" "chan 8 L = tg" "chan 0 L = tb"
    unfolding L_def
    by (rule chan_pack [OF tw(2) hi(1) tr(2) hi(2) tg(2) hi(3) tb(2) hi(4)])+
  have "limit_brightness C R = Some L"
    unfolding limit_brightness_def Let_def L_def
    using fl pack_color_Some [OF tw(1) tr(1) tg(1) tb(1)] by (simp only: x(1) y(1) if_True)
  moreover have "\<forall>s \<in> {24, 16, 8, 0}.
                 0 \<le> chan s L \<and> chan s L \<le> chan s C \<and>
                 chan s L * weighted_sum C \<le> chan s C * weighted_sum R \<and>
                 chan s C * weighted_sum R \<le> (chan s L + 1) * weighted_sum C"
    using tw tr tg tb by (simp add: cL A_def B_def)
  ultimately show ?thesis by blast
qed

section \<open>Comparing brightnesses\<close>

lemma limit_brightness_else:
  "\<not> weighted_sum R < weighted_sum C \<Longrightarrow> limit_brightness C R = Some C"
  by (simp add: limit_brightness_def Let_def flt_brightness_iff)

lemma weighted_sum_limit:
  assumes "limit_brightness C R = Some L"
  shows "weighted_sum L \<le> weighted_sum C" and "weighted_sum R < weighted_sum C \<Longrightarrow> weighted_sum L \<le> weighted_sum R"
proof -
  show "weighted_sum R < weighted_sum C \<Longrightarrow> weighted_sum L \<le> weighted_sum R"
  proof -
    assume lt: "weighted_sum R < weighted_sum C"
    define B where "B = weighted_sum C"
    define A where "A = weighted_sum R"
    from limit_brightness_scaled [OF lt] assms
    have s: "chan 24 L * B \<le> chan 24 C * A" "chan 16 L * B \<le> chan 16 C * A"
      "chan 8 L * B \<le> chan 8 C * A" "chan 0 L * B \<le> chan 0 C * A"
      by (auto simp: A_def B_def)
    have "weighted_sum L * B = chan 24 L * B * 5 + chan 16 L * B * 2 + chan 8 L * B * 3 + chan 0 L * B * 2"
      by (simp add: weighted_sum_def algebra_simps)
    also have "\<dots> \<le> chan 24 C * A * 5 + chan 16 C * A * 2 + chan 8 C * A * 3 + chan 0 C * A * 2"
      using s by linarith
    also have "\<dots> = A * B" by (simp add: B_def weighted_sum_def algebra_simps)
    finally have "weighted_sum L * B \<le> A * B" .
    moreover have "0 < B" using lt weighted_sum_bounds(1) [of R] by (simp add: B_def)
    ultimately show "weighted_sum L \<le> weighted_sum R" by (simp add: A_def)
  qed
  then show "weighted_sum L \<le> weighted_sum C"
    using assms limit_brightness_else [of R C] by (cases "weighted_sum R < weighted_sum C") auto
qed

lemma feq_brightness_iff:
  "feq (get_brightness a) (get_brightness b) \<longleftrightarrow> weighted_sum a = weighted_sum b"
proof -
  obtain x where x: "get_brightness a = Val x" using get_brightness_val [of a] by blast
  obtain y where y: "get_brightness b = Val y" using get_brightness_val [of b] by blast
  have "flt (Val x) (Val y) \<longleftrightarrow> weighted_sum a < weighted_sum b"
    "flt (Val y) (Val x) \<longleftrightarrow> weighted_sum b < weighted_sum a"
    using flt_brightness_iff [of a b] flt_brightness_iff [of b a] by (simp_all add: x y)
  moreover have "weighted_sum a = weighted_sum b \<Longrightarrow> x = y"
    using x y by (simp add: get_brightness_rnd)
  ultimately show ?thesis by (auto simp: x y)
qed

lemma fge_brightness_iff:
  "fge (get_brightness a) (get_brightness b) \<longleftrightarrow> weighted_sum b \<le> weighted_sum a"
  by (auto simp: fge_def flt_brightness_iff feq_brightness_iff)

lemma brightness_zero_iff:
  "feq (get_brightness c) (Val 0) \<longleftrightarrow> weighted_sum c = 0"
proof -
  have "get_brightness 0 = Val 0" by (simp add: get_brightness_rnd weighted_sum_def chan_def rnd_def)
  moreover have "weighted_sum 0 = 0" by (simp add: weighted_sum_def chan_def)
  ultimately show ?thesis using feq_brightness_iff [of c 0] by simp
qed

lemma brightness_pos_iff:
  "flt (Val 0) (get_brightness c) \<longleftrightarrow> 0 < weighted_sum c"
proof -
  have "get_brightness 0 = Val 0" by (simp add: get_brightness_rnd weighted_sum_def chan_def rnd_def)
  moreover have "weighted_sum 0 = 0" by (simp add: weighted_sum_def chan_def)
  ultimately show ?thesis using flt_brightness_iff [of 0 c] by simp
qed

section \<open>Blending at the end points\<close>

lemma rnd_0 [simp]: "rnd fmt 0 = Val 0"
  by (simp add: rnd_def)

lemma rnd32_chan: "rnd binary32 (of_int (chan s c)) = Val (of_int (chan s c))"
proof -
  have "chan s c < 2 ^ 24" using chan_bounds(2) [of s c] by simp
  then show ?thesis using chan_bounds(1) [of s c] by (simp add: rnd32_of_int)
qed

lemma u32_of_float_chan: "u32_of_float (Val (of_int (chan s c))) = Some (drop_bit s c AND 0xff)"
proof -
  have "chan s c < 2 ^ 32" using chan_bounds(2) [of s c] by simp
  then show ?thesis
    using chan_bounds(1) [of s c] by (simp add: trunc_rat_def) (simp add: chan_def)
qed

lemma chan_sum: "chan 24 c * 16777216 + chan 16 c * 65536 + chan 8 c * 256 + chan 0 c = uint c"
proof -
  have b: "0 \<le> uint c" "uint c < 4294967296" using uint_lt2p [of c] by simp_all
  have c24: "chan 24 c = uint c div 16777216 mod 256" by (simp add: chan_def uint_chan)
  have c16: "chan 16 c = uint c div 65536 mod 256" by (simp add: chan_def uint_chan)
  have c8: "chan 8 c = uint c div 256 mod 256" by (simp add: chan_def uint_chan)
  have "chan 0 c = uint c div 2 ^ 0 mod 256" by (simp only: chan_def uint_chan)
  then have c0: "chan 0 c = uint c mod 256" by simp
  show ?thesis unfolding c24 c16 c8 c0 by (rule chan_decompose [OF b])
qed

lemma pack_channels: 
  "push_bit 24 (drop_bit 24 c AND 0xff) + push_bit 16 (drop_bit 16 c AND 0xff)
     + push_bit 8 (drop_bit 8 c AND 0xff) + push_bit 0 (drop_bit 0 c AND 0xff) = (c :: u32)"
proof -
  have w: "word_of_int (chan s c) = drop_bit s c AND 0xff" for s
    unfolding chan_def by (rule word_of_int_uint)
  have "uint (push_bit 24 (word_of_int (chan 24 c) :: u32) + push_bit 16 (word_of_int (chan 16 c))
     + push_bit 8 (word_of_int (chan 8 c)) + push_bit 0 (word_of_int (chan 0 c)))
     = chan 24 c * 16777216 + chan 16 c * 65536 + chan 8 c * 256 + chan 0 c"
    by (rule uint_pack) (rule chan_bounds)+
  then have "uint (push_bit 24 (word_of_int (chan 24 c) :: u32) + push_bit 16 (word_of_int (chan 16 c))
     + push_bit 8 (word_of_int (chan 8 c)) + push_bit 0 (word_of_int (chan 0 c))) = uint c"
    by (simp only: chan_sum)
  then have "push_bit 24 (word_of_int (chan 24 c) :: u32) + push_bit 16 (word_of_int (chan 16 c))
     + push_bit 8 (word_of_int (chan 8 c)) + push_bit 0 (word_of_int (chan 0 c)) = c"
    by (simp only: word_uint_eq_iff)
  then show ?thesis by (simp only: w)
qed

lemma blend_channel_0:
  "blend_channel (Val 0) (drop_bit s c1 AND 0xff) (drop_bit s c2 AND 0xff) = Val (of_int (chan s c1))"
proof -
  have one: "fsub binary32 (Val 1) (Val 0) = Val 1"
    using rnd32_of_int [of 1] by (simp add: fsub_def fadd_def)
  show ?thesis
    unfolding blend_channel_def float_of_u32_chan float_of_int_1 one
    using chan_bounds(1) [of s c1] chan_bounds(1) [of s c2]
    by (simp add: fmul_Val fadd_Val rnd32_chan)
qed

lemma blend_channel_1:
  "blend_channel (Val 1) (drop_bit s c1 AND 0xff) (drop_bit s c2 AND 0xff) = Val (of_int (chan s c2))"
proof -
  have zero: "fsub binary32 (Val 1) (Val 1) = Val 0"
    by (simp add: fsub_def fadd_def signed_zero_def)
  show ?thesis
    unfolding blend_channel_def float_of_u32_chan float_of_int_1 zero
    using chan_bounds(1) [of s c1] chan_bounds(1) [of s c2]
    by (simp add: fmul_Val fadd_Val rnd32_chan)
qed


lemma blend_colors_0: "blend_colors A B (Val 0) = Some A"
  unfolding blend_colors_def blend_channel_0
  by (simp only: pack_color_Some [OF u32_of_float_chan u32_of_float_chan u32_of_float_chan u32_of_float_chan] pack_channels)

lemma blend_colors_1: "blend_colors A B (Val 1) = Some B"
  unfolding blend_colors_def blend_channel_1
  by (simp only: pack_color_Some [OF u32_of_float_chan u32_of_float_chan u32_of_float_chan u32_of_float_chan] pack_channels)

section \<open>Blending a colour with itself\<close>




lemma render_leds_replicate:
  assumes "blend_colors s e p = Some L"
  shows "render_leds (replicate n s) (replicate n e) p = Some (replicate n L)"
  unfolding render_leds_def using assms by (induction n) simp_all

section \<open>Loading the state\<close>

lemma fill_undefined_eq:
  "n_read \<le> led_count \<Longrightarrow> led_count \<le> length colors \<Longrightarrow>
   fill_undefined n_read led_count colors
     = take n_read colors @ replicate (led_count - n_read) 0 @ drop led_count colors"
proof (induction n_read led_count colors rule: fill_undefined.induct)
  case (1 n_read led_count colors)
  show ?case
  proof (cases "n_read < led_count")
    case True
    then have "fill_undefined n_read led_count colors
        = fill_undefined (Suc n_read) led_count (colors[n_read := 0])"
      by (subst fill_undefined.simps) simp
    also have "\<dots> = take (Suc n_read) (colors[n_read := 0])
          @ replicate (led_count - Suc n_read) 0 @ drop led_count (colors[n_read := 0])"
      using True "1.prems" by (intro "1.IH") simp_all
    also have "take (Suc n_read) (colors[n_read := 0]) = take n_read colors @ [0]"
      using True "1.prems" by (simp add: take_Suc_conv_app_nth)
    also have "drop led_count (colors[n_read := 0]) = drop led_count colors"
      using True by simp
    also have "(take n_read colors @ [0]) @ replicate (led_count - Suc n_read) 0 @ drop led_count colors
        = take n_read colors @ replicate (led_count - n_read) 0 @ drop led_count colors"
      using True by (simp add: replicate_Suc [symmetric] Suc_diff_Suc del: replicate_Suc)
    finally show ?thesis .
  next
    case False
    then have "n_read = led_count" using "1.prems" by simp
    then show ?thesis by (subst fill_undefined.simps) simp
  qed
qed

lemma load_leds_eq:
  assumes "length colors = led_count"
  shows "load_leds files filename colors led_count =
     (let items = take led_count (u32s_of_bytes (case files filename of None \<Rightarrow> [] | Some content \<Rightarrow> content))
      in Some (case files filename of
                 None \<Rightarrow> [Failed_to_load filename]
               | Some content \<Rightarrow> if length items < led_count then [Insufficient_data filename] else [],
               items @ replicate (led_count - length items) 0))"
proof (cases "files filename")
  case None
  then show ?thesis using assms by (simp add: load_leds_def fill_undefined_eq)
next
  case (Some content)
  define items where "items = take led_count (u32s_of_bytes content)"
  have len: "length items \<le> led_count" by (simp add: items_def)
  have "fill_undefined (length items) led_count (items @ drop (length items) colors)
      = items @ replicate (led_count - length items) 0"
    using len assms by (subst fill_undefined_eq) simp_all
  then show ?thesis
    using Some assms by (simp add: load_leds_def fread_def Let_def items_def)
qed

section \<open>Running the program\<close>

lemma load_leds_missing:
  "files filename = None \<Longrightarrow>
   load_leds files filename (replicate n j) n = Some ([Failed_to_load filename], replicate n 0)"
  using load_leds_eq [of "replicate n j" n files filename] by simp

lemma those_replicate: "those (replicate n (Some x)) = Some (replicate n x)"
  by (induction n) simp_all

lemma end_colors_plain:
  "\<not> limit_brightness_flag p \<Longrightarrow> end_colors p (replicate n s) = Some (replicate n (color p))"
  by (simp add: end_colors_def those_replicate)

lemma render_leds_undefined:
  assumes "blend_colors s e p = None"
  shows "render_leds (replicate (Suc n) s) (replicate (Suc n) e) p = None"
  unfolding render_leds_def using assms by simp

lemma fade_progress_zero_duration:
  "fade_progress (get_timespan \<lparr>tv_sec = 100, tv_nsec = 10000000\<rparr> \<lparr>tv_sec = 100, tv_nsec = 0\<rparr>) (Val 0) = Val 1"
  by code_simp



lemma flt_not_fge: "flt a b \<Longrightarrow> \<not> fge a b"
  by (cases a; cases b) (auto simp: fge_def)

lemma fade_progress_final:
  "fge (fade_progress el du) (Val 1) \<Longrightarrow> fade_progress el du = Val 1"
  using flt_not_fge [of "fdiv binary32 el du" "Val 1"]
  by (auto simp: fade_progress_def Let_def)


section \<open>Elapsed time and progress\<close>









section \<open>The bytes of a state file\<close>




section \<open>A fade between equal colours\<close>









section \<open>A run whose requested colour is the stored colour\<close>






section \<open>Claims\<close>

text \<open>
  C1. The claim: \<open>brightness(C)\<close> is the weighted average of the four channels with
  weights 5, 2, 3, 2 normalised by 12, lies in [0,1], and is 1 at \<open>0xFFFFFFFF\<close>. The
  function divides the weighted sum of the 8-bit channels by 12 only, so full white has
  brightness 255, above 1, although the comment on the function promises a value in
  [0...1].
\<close>

theorem get_brightness_full_white:
  "get_brightness 0xFFFFFFFF = Val 255 \<and> flt (Val 1) (get_brightness 0xFFFFFFFF)"
  by code_simp

text \<open>
  C5. When the brightness of the reference \<open>R\<close> is at least that of the candidate \<open>C\<close>,
  \<open>limit_brightness\<close> returns \<open>C\<close> unchanged. In particular, when the brightness of \<open>C\<close>
  is zero the test that guards the scaling branch (the only place that divides by the
  brightness of \<open>C\<close>) is false for every \<open>R\<close>, and \<open>C\<close> is returned unchanged.
\<close>

theorem limit_brightness_unchanged:
  "(fge (get_brightness R) (get_brightness C) \<longrightarrow> limit_brightness C R = Some C) \<and>
   (feq (get_brightness C) (Val 0) \<longrightarrow>
      \<not> flt (get_brightness R) (get_brightness C) \<and> limit_brightness C R = Some C)"
proof (intro conjI impI)
  assume "fge (get_brightness R) (get_brightness C)"
  then have "\<not> weighted_sum R < weighted_sum C" by (simp add: fge_brightness_iff)
  then show "limit_brightness C R = Some C" by (rule limit_brightness_else)
next
  assume "feq (get_brightness C) (Val 0)"
  then have z: "weighted_sum C = 0" by (simp add: brightness_zero_iff)
  then have n: "\<not> weighted_sum R < weighted_sum C" using weighted_sum_bounds(1) [of R] by simp
  then show "\<not> flt (get_brightness R) (get_brightness C)" by (simp add: flt_brightness_iff)
  from n show "limit_brightness C R = Some C" by (rule limit_brightness_else)
qed

theorem limit_brightness_unchanged_witness:
  "fge (get_brightness 0x10000000) (get_brightness 0x00000010) \<and>
   limit_brightness 0x00000010 0x10000000 = Some 0x00000010 \<and>
   feq (get_brightness 0) (Val 0) \<and>
   \<not> flt (get_brightness 0xFFFFFFFF) (get_brightness 0) \<and>
   limit_brightness 0 0xFFFFFFFF = Some 0"
proof -
  have h1: "fge (get_brightness 0x10000000) (get_brightness 0x00000010)" by code_simp
  have h2: "feq (get_brightness 0) (Val 0)" by code_simp
  show ?thesis
    using h1 h2 limit_brightness_unchanged [of "0x10000000" "0x00000010"]
      limit_brightness_unchanged [of "0xFFFFFFFF" 0]
    by simp
qed

text \<open>
  C6. When the brightness of the reference \<open>R\<close> is strictly below that of the candidate
  \<open>C\<close> (and that of \<open>C\<close> is positive), \<open>limit_brightness\<close> returns a colour \<open>L\<close> each of
  whose channels is the channel of \<open>C\<close> scaled by the ratio of the two brightnesses and
  cut to an integer: it is at most the exact product and misses it by at most 1 (the
  truncation, after the rounding of the three \<^verbatim>\<open>float\<close> operations). So the channels of
  \<open>L\<close> keep the proportions of those of \<open>C\<close>, and the brightness of \<open>L\<close> is at most that
  of \<open>R\<close>.
\<close>

theorem limit_brightness_scales:
  assumes "flt (get_brightness R) (get_brightness C)" and "flt (Val 0) (get_brightness C)"
  shows "\<exists>L. limit_brightness C R = Some L \<and>
    of_int (chan 24 C) * brightness_ratio R C - 1 \<le> of_int (chan 24 L) \<and>
    of_int (chan 24 L) \<le> of_int (chan 24 C) * brightness_ratio R C \<and>
    of_int (chan 16 C) * brightness_ratio R C - 1 \<le> of_int (chan 16 L) \<and>
    of_int (chan 16 L) \<le> of_int (chan 16 C) * brightness_ratio R C \<and>
    of_int (chan 8 C) * brightness_ratio R C - 1 \<le> of_int (chan 8 L) \<and>
    of_int (chan 8 L) \<le> of_int (chan 8 C) * brightness_ratio R C \<and>
    of_int (chan 0 C) * brightness_ratio R C - 1 \<le> of_int (chan 0 L) \<and>
    of_int (chan 0 L) \<le> of_int (chan 0 C) * brightness_ratio R C \<and>
    fge (get_brightness R) (get_brightness L)"
proof -
  have lt: "weighted_sum R < weighted_sum C" using assms(1) by (simp add: flt_brightness_iff)
  define B :: rat where "B = of_int (weighted_sum C)"
  define A :: rat where "A = of_int (weighted_sum R)"
  have Bpos: "0 < B" using lt weighted_sum_bounds(1) [of R] by (simp add: B_def)
  from limit_brightness_scaled [OF lt] obtain L where L: "limit_brightness C R = Some L"
    and sc: "\<forall>s \<in> {24, 16, 8, 0}.
                 0 \<le> chan s L \<and> chan s L \<le> chan s C \<and>
                 chan s L * weighted_sum C \<le> chan s C * weighted_sum R \<and>
                 chan s C * weighted_sum R \<le> (chan s L + 1) * weighted_sum C"
    by blast
  have ch: "of_int (chan s C) * brightness_ratio R C - 1 \<le> of_int (chan s L) \<and>
            of_int (chan s L) \<le> of_int (chan s C) * brightness_ratio R C"
    if s: "s \<in> {24, 16, 8, 0}" for s
  proof -
    from sc s have "chan s L * weighted_sum C \<le> chan s C * weighted_sum R"
      and "chan s C * weighted_sum R \<le> (chan s L + 1) * weighted_sum C" by blast+
    then have "(of_int (chan s L * weighted_sum C) :: rat) \<le> of_int (chan s C * weighted_sum R)"
      and "(of_int (chan s C * weighted_sum R) :: rat) \<le> of_int ((chan s L + 1) * weighted_sum C)"
      by (simp_all only: of_int_le_iff)
    then have "of_int (chan s L) * B \<le> of_int (chan s C) * A"
      and "of_int (chan s C) * A \<le> (of_int (chan s L) + 1) * B"
      by (simp_all add: A_def B_def)
    then have "of_int (chan s L) \<le> of_int (chan s C) * A / B"
      and "of_int (chan s C) * A / B \<le> of_int (chan s L) + 1"
      using Bpos by (simp_all add: pos_le_divide_eq pos_divide_le_eq)
    then show ?thesis by (simp add: brightness_ratio_def A_def B_def)
  qed
  have "weighted_sum L \<le> weighted_sum R" using weighted_sum_limit(2) [OF L lt] .
  then have "fge (get_brightness R) (get_brightness L)" by (simp add: fge_brightness_iff)
  then show ?thesis using L ch [of 24] ch [of 16] ch [of 8] ch [of 0] by simp
qed

theorem limit_brightness_scales_witness:
  "flt (get_brightness 0x01020101) (get_brightness 0x7f7f0000) \<and>
   flt (Val 0) (get_brightness 0x7f7f0000) \<and>
   limit_brightness 0x7f7f0000 0x01020101 = Some 0x01010000 \<and>
   fge (get_brightness 0x01020101) (get_brightness 0x01010000)"
proof -
  have h1: "flt (get_brightness 0x01020101) (get_brightness 0x7f7f0000)" by code_simp
  have h2: "flt (Val 0) (get_brightness 0x7f7f0000)" by code_simp
  have v: "limit_brightness 0x7f7f0000 0x01020101 = Some 0x01010000" by code_simp
  from limit_brightness_scales [OF h1 h2] v
  have "fge (get_brightness 0x01020101) (get_brightness 0x01010000)" by auto
  with h1 h2 v show ?thesis by blast
qed

text \<open>
  C10. For every candidate \<open>C\<close> and reference \<open>R\<close>, \<open>limit_brightness\<close> returns a colour
  (no conversion to \<^verbatim>\<open>uint32_t\<close> is out of range), and no channel of it exceeds the
  corresponding channel of \<open>C\<close>.
\<close>

theorem limit_brightness_never_brightens:
  "\<exists>L. limit_brightness C R = Some L \<and>
     chan 24 L \<le> chan 24 C \<and> chan 16 L \<le> chan 16 C \<and>
     chan 8 L \<le> chan 8 C \<and> chan 0 L \<le> chan 0 C"
proof (cases "weighted_sum R < weighted_sum C")
  case True
  from limit_brightness_scaled [OF True] show ?thesis by auto
next
  case False
  then show ?thesis by (simp add: limit_brightness_else)
qed

text \<open>
  C8. For all colours \<open>A\<close> and \<open>B\<close>, blending with \<open>alpha = 0\<close> gives \<open>A\<close> and blending
  with \<open>alpha = 1\<close> gives \<open>B\<close>. Both hold exactly (every \<^verbatim>\<open>float\<close> operation involved is
  exact on the 8-bit channel values), hence within the tolerance of 1 per channel.
\<close>

theorem blend_colors_end_points:
  "blend_colors A B (Val 0) = Some A \<and> blend_colors A B (Val 1) = Some B"
  by (simp add: blend_colors_0 blend_colors_1)


text \<open>
  A negative duration is not clamped at all: with the \<^verbatim>\<open>float\<close> nearest to \<open>-1e-10\<close> as
  duration, 10 ms after the start the progress is \<open>-1e8\<close>, \<open>1 - alpha\<close> rounds to \<open>1e8\<close>,
  and the blend of colour 5 with itself is 0.
\<close>

lemma blend_same_color_negative_duration:
  "blend_colors 0x00000005 0x00000005
     (fade_progress
        (get_timespan \<lparr>tv_sec = 100, tv_nsec = 10000000\<rparr> \<lparr>tv_sec = 100, tv_nsec = 0\<rparr>)
        (Val (- 14411519 / 144115188075855872)))
   = Some 0"
  by code_simp




text \<open>
  C7. For every file system, path and count, \<open>load_leds\<close> on an array of \<open>led_count\<close>
  entries returns (it has no failing exit) an array of exactly \<open>led_count\<close> colours: all
  zero when the file cannot be opened or is empty, and otherwise the complete items of
  the file, at most \<open>led_count\<close> of them, followed by zeros; items beyond \<open>led_count\<close> are
  not read.
\<close>

theorem load_leds_pads:
  assumes "length colors = led_count"
  shows "\<exists>msgs cs. load_leds files filename colors led_count = Some (msgs, cs) \<and>
     length cs = led_count \<and>
     (files filename = None \<longrightarrow> cs = replicate led_count 0) \<and>
     (files filename = Some [] \<longrightarrow> cs = replicate led_count 0) \<and>
     (\<forall>content. files filename = Some content \<longrightarrow>
        cs = take led_count (u32s_of_bytes content)
             @ replicate (led_count - length (u32s_of_bytes content)) 0)"
proof (cases "files filename")
  case None
  then show ?thesis using load_leds_eq [OF assms, of files filename] by simp
next
  case (Some content)
  then show ?thesis using load_leds_eq [OF assms, of files filename] by (auto simp: Let_def)
qed

theorem load_leds_pads_witness:
  "length [7, 7, 7 :: u32] = 3 \<and>
   (\<exists>msgs. load_leds (\<lambda>f. if f = ''/tmp/leds0'' then Some [1, 0, 0, 0, 2, 0, 0, 1, 5] else None)
              ''/tmp/leds0'' [7, 7, 7] 3 = Some (msgs, [1, 0x01000002, 0])) \<and>
   (\<exists>msgs. load_leds (\<lambda>f. if f = ''/tmp/leds0'' then Some [1, 0, 0, 0, 2, 0, 0, 1, 5] else None)
              ''/tmp/leds1'' [7, 7, 7] 3 = Some (msgs, [0, 0, 0])) \<and>
   (\<exists>msgs. load_leds (\<lambda>f. if f = ''/tmp/leds0'' then Some [1, 0, 0, 0, 2, 0, 0, 1, 5] else None)
              ''/tmp/leds0'' [7 :: u32] 1 = Some (msgs, [1]))"
proof -
  have h: "length [7, 7, 7 :: u32] = 3" by simp
  have h1: "length [7 :: u32] = 1" by simp
  let ?fs = "\<lambda>f. if f = ''/tmp/leds0'' then Some [1, 0, 0, 0, 2, 0, 0, 1, 5 :: byte] else None"
  from load_leds_pads [OF h, of ?fs "''/tmp/leds0''"]
  have a: "\<exists>msgs. load_leds ?fs ''/tmp/leds0'' [7, 7, 7] 3 = Some (msgs, [1, 0x01000002, 0])"
    by (auto simp: numeral_3_eq_3)
  from load_leds_pads [OF h, of ?fs "''/tmp/leds1''"]
  have b: "\<exists>msgs. load_leds ?fs ''/tmp/leds1'' [7, 7, 7] 3 = Some (msgs, [0, 0, 0])"
    by (auto simp: numeral_3_eq_3)
  from load_leds_pads [OF h1, of ?fs "''/tmp/leds0''"]
  have c: "\<exists>msgs. load_leds ?fs ''/tmp/leds0'' [7] 1 = Some (msgs, [1])"
    by auto
  from a b c show ?thesis by simp
qed

text \<open>
  C2. The claim: the exit code is 0 on success and nonzero on every failure path, a
  clock failure inside the animation loop included. When \<^verbatim>\<open>clock_gettime\<close> fails inside
  the loop the code prints the diagnostic and leaves the loop, and \<^verbatim>\<open>main\<close> returns
  \<^verbatim>\<open>ret\<close>, which still holds the success status of \<^verbatim>\<open>ws2811_init\<close>: the exit code is 0.
  (The same failure before the loop returns -1.)
\<close>

theorem main_clock_failure_in_loop:
  "(case main \<lparr>e_argv = [''lightctl'', ''ff0000''],
         e_scan_x = (\<lambda>s. if s = ''ff0000'' then Some 0xff0000 else None),
         e_scan_f = (\<lambda>s. None),
         e_setuid = 0, e_files = (\<lambda>f. None), e_junk = 0,
         e_clock = Some \<lparr>tv_sec = 100, tv_nsec = 0\<rparr>,
         e_init = 0,
         e_frames = [\<lparr>f_running = True, f_clock = None,
                      f_render = 0, f_store0 = Some 167, f_store1 = Some 109\<rparr>]\<rparr>
   of (evs, fl, out) \<Rightarrow>
     evs = [Setuid_root, Print (Failed_to_load ''/tmp/leds0''), Print (Failed_to_load ''/tmp/leds1''),
            Hw_init, Print Clock_failed, Hw_fini]
     \<and> out = Exit 0)"
  by (simp add: main_def run_def ledstrip_def parse_cmdline_def load_leds_missing end_colors_plain
      WS2811_SUCCESS_def Let_def)

text \<open>
  C3. The claim: an invocation with no colour argument is rejected with a usage error
  (as are an unknown argument and a second colour argument). \<^verbatim>\<open>parse_cmdline\<close> records
  \<^verbatim>\<open>color_specified\<close> but nothing checks it at the end: with no argument at all the
  program prints no usage text, takes the colour 0, initialises the driver, renders
  every LED as off and exits with 0, although the usage text gives \<^verbatim>\<open>WWRRGGBB\<close> as
  mandatory.
\<close>

theorem main_without_color_argument:
  "(case main \<lparr>e_argv = [''lightctl''],
         e_scan_x = (\<lambda>s. None), e_scan_f = (\<lambda>s. None),
         e_setuid = 0, e_files = (\<lambda>f. None), e_junk = 0,
         e_clock = Some \<lparr>tv_sec = 100, tv_nsec = 0\<rparr>,
         e_init = 0,
         e_frames = [\<lparr>f_running = True, f_clock = Some \<lparr>tv_sec = 100, tv_nsec = 10000000\<rparr>,
                      f_render = 0, f_store0 = Some 167, f_store1 = Some 109\<rparr>]\<rparr>
   of (evs, fl, out) \<Rightarrow>
     evs = [Setuid_root, Print (Failed_to_load ''/tmp/leds0''), Print (Failed_to_load ''/tmp/leds1''),
            Hw_init, Hw_render (replicate 167 0) (replicate 109 0), Hw_fini]
     \<and> out = Exit 0)"
  by (simp add: main_def run_def ledstrip_def parse_cmdline_def load_leds_missing end_colors_plain
      fade_progress_zero_duration render_leds_replicate blend_colors_1 WS2811_SUCCESS_def
      store_leds_def fge_def Let_def)

text \<open>
  C4. The claim: whenever the duration is 0, or the quotient is NaN, infinite or at
  least 1, the progress is set to exactly 1. With \<^verbatim>\<open>--time -0\<close> the duration is the
  negative zero; 10 ms after the start the quotient is minus infinity, the test
  \<^verbatim>\<open>!(progress < 1)\<close> is false, and the progress stays minus infinity. Every blend of
  that frame is then a NaN, whose conversion to \<^verbatim>\<open>uint32_t\<close> is undefined, and
  \<^verbatim>\<open>progress >= 1\<close> never ends the loop.
\<close>

theorem fade_progress_negative_zero:
  "fade_progress
     (get_timespan \<lparr>tv_sec = 100, tv_nsec = 10000000\<rparr> \<lparr>tv_sec = 100, tv_nsec = 0\<rparr>) NZero
     = NInf \<and>
   feq NZero (Val 0) \<and> flt NInf (Val 1) \<and> \<not> fge NInf (Val 1) \<and>
   blend_colors 0 0xff NInf = None \<and>
   (case main \<lparr>e_argv = [''lightctl'', ''ff'', ''--time'', ''-0''],
         e_scan_x = (\<lambda>s. if s = ''ff'' then Some 0xff else None),
         e_scan_f = (\<lambda>s. if s = ''-0'' then Some NZero else None),
         e_setuid = 0, e_files = (\<lambda>f. None), e_junk = 0,
         e_clock = Some \<lparr>tv_sec = 100, tv_nsec = 0\<rparr>,
         e_init = 0,
         e_frames = [\<lparr>f_running = True, f_clock = Some \<lparr>tv_sec = 100, tv_nsec = 10000000\<rparr>,
                      f_render = 0, f_store0 = Some 167, f_store1 = Some 109\<rparr>]\<rparr>
    of (evs, fl, out) \<Rightarrow>
      evs = [Setuid_root, Print (Failed_to_load ''/tmp/leds0''),
             Print (Failed_to_load ''/tmp/leds1''), Hw_init]
      \<and> out = Undefined_behaviour)"
proof -
  have p: "fade_progress
     (get_timespan \<lparr>tv_sec = 100, tv_nsec = 10000000\<rparr> \<lparr>tv_sec = 100, tv_nsec = 0\<rparr>) NZero
     = NInf" by code_simp
  have b: "blend_colors 0 0xff NInf = None" by code_simp
  have r: "render_leds (replicate 167 0) (replicate 167 0xff) NInf = None"
    using render_leds_undefined [OF b, of 166] by simp
  have c: "feq NZero (Val 0) \<and> flt NInf (Val 1) \<and> \<not> fge NInf (Val 1)" by (simp add: fge_def)
  have m: "(case main \<lparr>e_argv = [''lightctl'', ''ff'', ''--time'', ''-0''],
         e_scan_x = (\<lambda>s. if s = ''ff'' then Some 0xff else None),
         e_scan_f = (\<lambda>s. if s = ''-0'' then Some NZero else None),
         e_setuid = 0, e_files = (\<lambda>f. None), e_junk = 0,
         e_clock = Some \<lparr>tv_sec = 100, tv_nsec = 0\<rparr>,
         e_init = 0,
         e_frames = [\<lparr>f_running = True, f_clock = Some \<lparr>tv_sec = 100, tv_nsec = 10000000\<rparr>,
                      f_render = 0, f_store0 = Some 167, f_store1 = Some 109\<rparr>]\<rparr>
    of (evs, fl, out) \<Rightarrow>
      evs = [Setuid_root, Print (Failed_to_load ''/tmp/leds0''),
             Print (Failed_to_load ''/tmp/leds1''), Hw_init]
      \<and> out = Undefined_behaviour)"
    by (simp add: main_def run_def ledstrip_def parse_cmdline_def load_leds_missing end_colors_plain
      p r WS2811_SUCCESS_def Let_def)
  from p b c m show ?thesis by blast
qed

end
